theory Spec2Isabelle
  imports Complex_Main "HOL-Library.Sublist" "HOL-Library.Log_Nat"
begin

section \<open>TrendMerch: retry, print resize, slugs, trend fallback, Printful payload\<close>

text \<open>
  A shallow embedding of the parts of \<^verbatim>\<open>design.py\<close> and \<^verbatim>\<open>printful_uploader.py\<close>
  that carry the program's own logic. Calls into external libraries (the inference client,
  pytrends, rembg, Pillow resampling, HTTP) are parameters of the model; an exception raised
  by Python is a value \<open>Inl e\<close> of a sum type.
\<close>

subsection \<open>Exceptions\<close>

datatype py_exception =
    ValueError string
  | ZeroDivisionError
  | KeyError string
  | LibraryError string  \<comment> \<open>any other subclass of \<^verbatim>\<open>Exception\<close> raised by a library call\<close>

subsection \<open>Strings\<close>

text \<open>
  A Python \<^verbatim>\<open>str\<close> is a sequence of code points. The model covers the code points below
  256: a \<^typ>\<open>char\<close> \<open>c\<close> stands for the code point \<open>of_char c\<close>. On this range
  \<^verbatim>\<open>str.lower\<close> maps \<open>A\<close>--\<open>Z\<close> and the Latin-1 capitals (192--222 except the
  multiplication sign 215) to the code point 32 above and leaves every other one alone.
\<close>

definition lower_char :: "char \<Rightarrow> char" where
  "lower_char c =
     (let n = (of_char c :: nat) in
      if (65 \<le> n \<and> n \<le> 90) \<or> (192 \<le> n \<and> n \<le> 222 \<and> n \<noteq> 215) then char_of (n + 32) else c)"

definition py_lower :: "string \<Rightarrow> string" where
  "py_lower s = map lower_char s"

subsection \<open>\<^verbatim>\<open>design.py\<close>: \<^verbatim>\<open>slugify\<close>\<close>

text \<open>
  \<^verbatim>\<open>
  def slugify(text):
      text = text.lower()
      text = re.sub(r'[^\w\s-]', '', text)
      text = re.sub(r'[\s_-]+', '_', text)
      return text.strip('_')
  \<close>
  For a \<^verbatim>\<open>str\<close> pattern \<^verbatim>\<open>\w\<close> matches the alphanumeric code points and the underscore,
  \<^verbatim>\<open>\s\<close> the whitespace code points; both tables are given for the code points below 256.
\<close>

definition is_word :: "char \<Rightarrow> bool" where
  "is_word c =
     (let n = (of_char c :: nat) in
      (48 \<le> n \<and> n \<le> 57) \<or> (65 \<le> n \<and> n \<le> 90) \<or> n = 95 \<or> (97 \<le> n \<and> n \<le> 122) \<or>
      n = 170 \<or> n = 178 \<or> n = 179 \<or> n = 181 \<or> n = 185 \<or> n = 186 \<or> (188 \<le> n \<and> n \<le> 190) \<or>
      (192 \<le> n \<and> n \<le> 214) \<or> (216 \<le> n \<and> n \<le> 246) \<or> 248 \<le> n)"

definition is_space :: "char \<Rightarrow> bool" where
  "is_space c =
     (let n = (of_char c :: nat) in (9 \<le> n \<and> n \<le> 13) \<or> (28 \<le> n \<and> n \<le> 32) \<or> n = 133 \<or> n = 160)"

text \<open>The class \<^verbatim>\<open>[\w\s-]\<close>, whose complement the first substitution deletes.\<close>

definition kept :: "char \<Rightarrow> bool" where
  "kept c \<longleftrightarrow> is_word c \<or> is_space c \<or> c = CHR ''-''"

text \<open>The class \<^verbatim>\<open>[\s_-]\<close> of the second substitution.\<close>

definition separator :: "char \<Rightarrow> bool" where
  "separator c \<longleftrightarrow> is_space c \<or> c = CHR ''_'' \<or> c = CHR ''-''"

text \<open>
  \<^verbatim>\<open>re.sub(r'[\s_-]+', '_', text)\<close>: every maximal run of separators becomes one underscore.
  The flag says whether the character before was a separator, that is whether the
  underscore of the current run is already written.
\<close>

fun sub_runs :: "bool \<Rightarrow> string \<Rightarrow> string" where
  "sub_runs in_run [] = []"
| "sub_runs in_run (c # cs) =
     (if separator c then (if in_run then sub_runs True cs else CHR ''_'' # sub_runs True cs)
      else c # sub_runs False cs)"

text \<open>\<^verbatim>\<open>s.strip(ch)\<close> for a single character: drop it from both ends.\<close>

definition py_strip :: "char \<Rightarrow> string \<Rightarrow> string" where
  "py_strip ch s = rev (dropWhile (\<lambda>c. c = ch) (rev (dropWhile (\<lambda>c. c = ch) s)))"

definition slugify :: "string \<Rightarrow> string" where
  "slugify text =
     (let text1 = py_lower text;
          text2 = filter kept text1;
          text3 = sub_runs False text2
      in py_strip (CHR ''_'') text3)"

text \<open>What the result of \<open>slugify\<close> looks like; used to show that a second pass changes nothing.\<close>

definition not_both :: "char \<Rightarrow> char \<Rightarrow> bool" where
  "not_both a b \<longleftrightarrow> \<not> (a = CHR ''_'' \<and> b = CHR ''_'')"

definition no_double :: "string \<Rightarrow> bool" where
  "no_double s \<longleftrightarrow> successively not_both s"

definition slug_chars :: "string \<Rightarrow> bool" where
  "slug_chars s \<longleftrightarrow> (\<forall>c \<in> set s. lower_char c = c \<and> kept c \<and> (separator c \<longrightarrow> c = CHR ''_''))"

subsection \<open>\<^verbatim>\<open>design.py\<close>: \<^verbatim>\<open>get_trending_topics\<close>\<close>

text \<open>A trend is the dictionary \<^verbatim>\<open>{"query": t, "value": v}\<close>.\<close>

record trend =
  query :: string
  "value" :: int

text \<open>
  The data frame pytrends returns, as far as the code looks at it: named columns of
  equal length. \<^verbatim>\<open>df.empty\<close> holds when there is no column or no row, \<^verbatim>\<open>df[c]\<close>
  raises \<^verbatim>\<open>KeyError\<close> for an absent column, and \<^verbatim>\<open>head(n)\<close> keeps the first \<open>n\<close> rows
  (all but the last \<open>-n\<close> for a negative \<open>n\<close>).
\<close>

datatype column = IntCol int | StrCol string

type_synonym data_frame = "(column \<times> string list) list"

definition df_empty :: "data_frame \<Rightarrow> bool" where
  "df_empty df = (case df of [] \<Rightarrow> True | (c, rows) # _ \<Rightarrow> rows = [])"

definition df_column :: "data_frame \<Rightarrow> column \<Rightarrow> py_exception + string list" where
  "df_column df c =
     (case map_of df c of
        None \<Rightarrow> Inl (KeyError (case c of IntCol _ \<Rightarrow> ''0'' | StrCol s \<Rightarrow> s))
      | Some rows \<Rightarrow> Inr rows)"

definition series_head :: "int \<Rightarrow> 'a list \<Rightarrow> 'a list" where
  "series_head n xs = (if 0 \<le> n then take (nat n) xs else take (length xs - nat (- n)) xs)"

text \<open>\<^verbatim>\<open>[{"query": t, "value": 100 - i*step} for i, t in enumerate(topics)]\<close>\<close>

definition ranked :: "int \<Rightarrow> string list \<Rightarrow> trend list" where
  "ranked step topics = map (\<lambda>(i, t). \<lparr>query = t, value = 100 - int i * step\<rparr>) (enumerate 0 topics)"

text \<open>
  The pytrends library: the constructor \<^verbatim>\<open>TrendReq(...)\<close> and the two requests, each of which
  may raise.
\<close>

record 'c pytrends =
  TrendReq :: "py_exception + 'c"
  trending_searches :: "'c \<Rightarrow> string \<Rightarrow> py_exception + data_frame"
  realtime_trending_searches :: "'c \<Rightarrow> string \<Rightarrow> py_exception + data_frame"

definition fallback :: "string list" where
  "fallback = [''AI Generated Art'', ''Viral Memes 2024'', ''Trending Now'', ''Just Vibing'', ''No Cap'']"

text \<open>
  The body of the \<^verbatim>\<open>try\<close> block. \<open>Inl e\<close>: an exception was raised inside it;
  \<open>Inr (Some topics)\<close>: one of its two \<^verbatim>\<open>return\<close> statements was reached;
  \<open>Inr None\<close>: control fell through to the \<^verbatim>\<open>return []\<close> after the block.
\<close>

definition fetch_trends ::
  "('c, 'x) pytrends_scheme \<Rightarrow> 'c \<Rightarrow> string \<Rightarrow> int \<Rightarrow> py_exception + trend list option" where
  "fetch_trends lib client region limit =
     (case trending_searches lib client (py_lower region) of
        Inl e \<Rightarrow> Inl e
      | Inr trending \<Rightarrow>
          if df_empty trending then
            (case realtime_trending_searches lib client region of
               Inl e \<Rightarrow> Inl e
             | Inr trending' \<Rightarrow>
                 if \<not> df_empty trending' then
                   (case df_column trending' (StrCol ''title'') of
                      Inl e \<Rightarrow> Inl e
                    | Inr col \<Rightarrow> Inr (Some (ranked 5 (series_head limit col))))
                 else Inr None)
          else
            (case df_column trending (IntCol 0) of
               Inl e \<Rightarrow> Inl e
             | Inr col \<Rightarrow> Inr (Some (ranked 5 (series_head limit col)))))"

text \<open>
  \<^verbatim>\<open>get_trending_topics\<close>: the constructor is called before the \<^verbatim>\<open>try\<close>, so what it raises
  propagates; \<^verbatim>\<open>except Exception\<close> turns whatever the block raises into the fallback list.
\<close>

definition get_trending_topics ::
  "('c, 'x) pytrends_scheme \<Rightarrow> string \<Rightarrow> string \<Rightarrow> int \<Rightarrow> py_exception + trend list" where
  "get_trending_topics lib region timeframe limit =
     (case TrendReq lib of
        Inl e \<Rightarrow> Inl e
      | Inr client \<Rightarrow>
         (case fetch_trends lib client region limit of
            Inl e \<Rightarrow> Inr (ranked 10 fallback)
          | Inr (Some topics) \<Rightarrow> Inr topics
          | Inr None \<Rightarrow> Inr []))"

text \<open>
  pytrends without a network: the constructor makes the first HTTP request itself, so it
  already raises, and so would either request.
\<close>

definition network_down :: "unit pytrends" where
  "network_down =
     \<lparr>TrendReq = Inl (LibraryError ''ConnectionError''),
      trending_searches = (\<lambda>c pn. Inl (LibraryError ''ConnectionError'')),
      realtime_trending_searches = (\<lambda>c pn. Inl (LibraryError ''ConnectionError''))\<rparr>"

subsection \<open>\<^verbatim>\<open>design.py\<close>: \<^verbatim>\<open>generate_design\<close>\<close>

text \<open>
  One call of \<^verbatim>\<open>client.text_to_image\<close> either returns an image or raises; the handler
  only looks at \<^verbatim>\<open>str(e)\<close>. What the run does to the outside is recorded as a trace:
  \<open>Attempt k\<close> for the \<open>k\<close>-th call (numbered from 1, as the program prints it) and
  \<open>Sleep s\<close> for \<^verbatim>\<open>time.sleep(s)\<close>.
\<close>

datatype 'img outcome = Generated 'img | Failed string

datatype event = Attempt nat | Sleep nat

text \<open>The three tests of the handler; \<^verbatim>\<open>x in s\<close> on strings is the contiguous-sublist test.\<close>

definition is_503 :: "string \<Rightarrow> bool" where
  "is_503 error_msg \<longleftrightarrow> sublist ''503'' error_msg \<or> sublist ''Service Unavailable'' error_msg"

definition is_429 :: "string \<Rightarrow> bool" where
  "is_429 error_msg \<longleftrightarrow> sublist ''429'' error_msg \<or> sublist ''rate limit'' (py_lower error_msg)"

definition is_401 :: "string \<Rightarrow> bool" where
  "is_401 error_msg \<longleftrightarrow> sublist ''401'' error_msg \<or> sublist ''unauthorized'' (py_lower error_msg)"

definition then_run :: "event list \<Rightarrow> event list \<times> 'a \<Rightarrow> event list \<times> 'a" where
  "then_run evs r = (evs @ fst r, snd r)"

text \<open>
  The loop \<^verbatim>\<open>for attempt in range(retries)\<close>, as a recursion over the list of the values
  \<open>attempt\<close> still has to take; \<open>call attempt\<close> is the outcome of the request made in that
  iteration. The empty list is the exit of the loop: \<^verbatim>\<open>return None\<close>.
\<close>

fun attempts :: "(nat \<Rightarrow> 'img outcome) \<Rightarrow> int \<Rightarrow> nat list \<Rightarrow> event list \<times> 'img option" where
  "attempts call retries [] = ([], None)"
| "attempts call retries (attempt # rest) =
     (case call attempt of
        Generated img \<Rightarrow> ([Attempt (attempt + 1)], Some img)
      | Failed error_msg \<Rightarrow>
          if is_503 error_msg then
            (let wait_time = 60 * (attempt + 1)
             in then_run [Attempt (attempt + 1), Sleep wait_time] (attempts call retries rest))
          else if is_429 error_msg then
            (let wait_time = 60
             in then_run [Attempt (attempt + 1), Sleep wait_time] (attempts call retries rest))
          else if is_401 error_msg then ([Attempt (attempt + 1)], None)
          else if int attempt < retries - 1 then
            then_run [Attempt (attempt + 1), Sleep 10] (attempts call retries rest)
          else then_run [Attempt (attempt + 1)] (attempts call retries rest))"

text \<open>
  \<^verbatim>\<open>generate_design(prompt, hf_token, retries)\<close>. \<open>client_init\<close> is what constructing the
  \<^verbatim>\<open>InferenceClient\<close> raises, if anything (the constructor is outside the \<^verbatim>\<open>try\<close>);
  \<open>text_to_image prompt attempt\<close> is the outcome of the request of iteration \<open>attempt\<close>.
\<close>

definition generate_design ::
  "py_exception option \<Rightarrow> (string \<Rightarrow> nat \<Rightarrow> 'img outcome) \<Rightarrow> string \<Rightarrow> int
     \<Rightarrow> event list \<times> (py_exception + 'img option)" where
  "generate_design client_init text_to_image prompt retries =
     (case client_init of
        Some e \<Rightarrow> ([], Inl e)
      | None \<Rightarrow>
         (let r = attempts (text_to_image prompt) retries [0..<nat retries]
          in (fst r, Inr (snd r))))"









subsection \<open>Python floats\<close>

text \<open>
  A Python float is an IEEE 754 binary64 number; the finite ones are rationals, and every
  operation returns the exact result rounded to the nearest representable number, ties to
  the even mantissa. \<open>fl\<close> is that rounding for the normal range (53-bit mantissa; overflow
  and subnormal numbers are out of reach of quotients of pixel counts and are not modelled).
\<close>

text \<open>Round to the nearest integer, ties to even.\<close>

definition rne :: "rat \<Rightarrow> int" where
  "rne y = (let f = \<lfloor>y\<rfloor>; d = y - of_int f
            in if d < 1/2 then f else if 1/2 < d then f + 1 else if even f then f else f + 1)"

text \<open>The binary exponent of a positive rational: \<open>2 powi ilog2 x \<le> x < 2 powi (ilog2 x + 1)\<close>.\<close>

definition ilog2 :: "rat \<Rightarrow> int" where
  "ilog2 x = (let (p, q) = quotient_of x; e = bitlen p - bitlen q
              in if x < 2 powi e then e - 1 else e)"

text \<open>The spacing of the binary64 numbers around \<open>x\<close>.\<close>

definition ulp :: "rat \<Rightarrow> rat" where
  "ulp x = 2 powi (ilog2 \<bar>x\<bar> - 52)"

definition fl :: "rat \<Rightarrow> rat" where
  "fl x = (if x = 0 then 0 else of_int (rne (x / ulp x)) * ulp x)"

text \<open>
  \<^verbatim>\<open>a / b\<close> on two ints is the correctly rounded quotient; an int operand of a float
  operation is converted first; \<^verbatim>\<open>int(x)\<close> truncates towards zero.
\<close>

definition int_truediv :: "int \<Rightarrow> int \<Rightarrow> py_exception + rat" where
  "int_truediv a b = (if b = 0 then Inl ZeroDivisionError else Inr (fl (of_int a / of_int b)))"

definition float_of_int :: "int \<Rightarrow> rat" where
  "float_of_int n = fl (of_int n)"

definition float_div :: "rat \<Rightarrow> rat \<Rightarrow> py_exception + rat" where
  "float_div x y = (if y = 0 then Inl ZeroDivisionError else Inr (fl (x / y)))"

definition float_mul :: "rat \<Rightarrow> rat \<Rightarrow> rat" where
  "float_mul x y = fl (x * y)"

definition py_int :: "rat \<Rightarrow> int" where
  "py_int x = (if 0 \<le> x then \<lfloor>x\<rfloor> else \<lceil>x\<rceil>)"

subsection \<open>\<^verbatim>\<open>design.py\<close>: \<^verbatim>\<open>resize_for_print\<close>\<close>

text \<open>
  The size of the scaled image:
  \<^verbatim>\<open>
  img_ratio = image.width / image.height
  target_ratio = width / height
  if img_ratio > target_ratio:
      new_width = width
      new_height = int(width / img_ratio)
  else:
      new_height = height
      new_width = int(height * img_ratio)
  \<close>
\<close>

definition scaled_size :: "int \<Rightarrow> int \<Rightarrow> int \<Rightarrow> int \<Rightarrow> py_exception + int \<times> int" where
  "scaled_size image_width image_height width height =
     (case int_truediv image_width image_height of
        Inl e \<Rightarrow> Inl e
      | Inr img_ratio \<Rightarrow>
         (case int_truediv width height of
            Inl e \<Rightarrow> Inl e
          | Inr target_ratio \<Rightarrow>
              if img_ratio > target_ratio then
                (case float_div (float_of_int width) img_ratio of
                   Inl e \<Rightarrow> Inl e
                 | Inr q \<Rightarrow> Inr (width, py_int q))
              else Inr (py_int (float_mul (float_of_int height) img_ratio), height)))"

text \<open>
  A Pillow image: its size, its mode and its pixels (column \<open>x\<close>, row \<open>y\<close>, red, green, blue
  and alpha). Only the pixels inside the size mean anything.
\<close>

type_synonym pixel = "nat \<times> nat \<times> nat \<times> nat"

record image =
  im_width :: int
  im_height :: int
  im_mode :: string
  im_px :: "int \<Rightarrow> int \<Rightarrow> pixel"

definition transparent :: pixel where
  "transparent = (0, 0, 0, 0)"

text \<open>\<^verbatim>\<open>Image.new(mode, size, color)\<close>: one colour everywhere; a negative size is refused.\<close>

definition image_new :: "string \<Rightarrow> int \<times> int \<Rightarrow> pixel \<Rightarrow> py_exception + image" where
  "image_new mode dims color =
     (if fst dims < 0 \<or> snd dims < 0 then Inl (ValueError ''Width and height must be >= 0'')
      else Inr \<lparr>im_width = fst dims, im_height = snd dims, im_mode = mode, im_px = (\<lambda>x y. color)\<rparr>)"

text \<open>
  What the program takes from Pillow without fixing it: \<^verbatim>\<open>image.resize(size, LANCZOS)\<close>,
  which may raise; how one pixel is composited by \<^verbatim>\<open>paste\<close> (from the mask pixel if a
  mask is given, the source pixel and the pixel below); and \<^verbatim>\<open>image.convert(mode)\<close>.
\<close>

record pillow =
  pil_resize :: "image \<Rightarrow> int \<times> int \<Rightarrow> py_exception + image"
  pil_composite :: "pixel option \<Rightarrow> pixel \<Rightarrow> pixel \<Rightarrow> pixel"
  pil_convert :: "image \<Rightarrow> string \<Rightarrow> py_exception + image"

text \<open>The region an image pasted at \<open>pos\<close> covers.\<close>

definition in_box :: "int \<times> int \<Rightarrow> image \<Rightarrow> int \<Rightarrow> int \<Rightarrow> bool" where
  "in_box pos im x y \<longleftrightarrow>
     fst pos \<le> x \<and> x < fst pos + im_width im \<and> snd pos \<le> y \<and> y < snd pos + im_height im"

text \<open>
  \<^verbatim>\<open>canvas.paste(im, pos, mask)\<close>: the pixels of the canvas under the pasted image are
  composited, all others stay as they are.
\<close>

definition paste ::
  "(pixel option \<Rightarrow> pixel \<Rightarrow> pixel \<Rightarrow> pixel) \<Rightarrow> image \<Rightarrow> image \<Rightarrow> int \<times> int \<Rightarrow> image option \<Rightarrow> image" where
  "paste composite canvas im pos mask_im =
     canvas\<lparr>im_px := (\<lambda>x y.
        if in_box pos im x y \<and> 0 \<le> x \<and> x < im_width canvas \<and> 0 \<le> y \<and> y < im_height canvas then
          composite (map_option (\<lambda>m. im_px m (x - fst pos) (y - snd pos)) mask_im)
                    (im_px im (x - fst pos) (y - snd pos)) (im_px canvas x y)
        else im_px canvas x y)\<rparr>"

text \<open>
  \<^verbatim>\<open>
  resized = image.resize((new_width, new_height), Image.Resampling.LANCZOS)
  canvas = Image.new('RGBA', (width, height), (0, 0, 0, 0))
  x = (width - new_width) // 2
  y = (height - new_height) // 2
  if resized.mode == 'RGBA':
      canvas.paste(resized, (x, y), resized)
  else:
      canvas.paste(resized, (x, y))
  return canvas
  \<close>
\<close>

definition resize_for_print ::
  "'x pillow_scheme \<Rightarrow> image \<Rightarrow> int \<Rightarrow> int \<Rightarrow> py_exception + image" where
  "resize_for_print lib img width height =
     (case scaled_size (im_width img) (im_height img) width height of
        Inl e \<Rightarrow> Inl e
      | Inr (new_width, new_height) \<Rightarrow>
         (case pil_resize lib img (new_width, new_height) of
            Inl e \<Rightarrow> Inl e
          | Inr resized \<Rightarrow>
             (case image_new ''RGBA'' (width, height) transparent of
                Inl e \<Rightarrow> Inl e
              | Inr canvas \<Rightarrow>
                 (let x = (width - new_width) div 2;
                      y = (height - new_height) div 2
                  in if im_mode resized = ''RGBA''
                     then Inr (paste (pil_composite lib) canvas resized (x, y) (Some resized))
                     else Inr (paste (pil_composite lib) canvas resized (x, y) None)))))"

subsection \<open>\<^verbatim>\<open>design.py\<close>: \<^verbatim>\<open>process_trend\<close>\<close>

definition TSHIRT_WIDTH :: int where "TSHIRT_WIDTH = 4500"
definition TSHIRT_HEIGHT :: int where "TSHIRT_HEIGHT = 5400"

definition STYLE_PRESETS :: "(string \<times> string) list" where
  "STYLE_PRESETS =
    [(''vaporwave'', ''A retro vaporwave t-shirt vector design featuring the text '' @ [CHR 0x27] @ ''{trend}'' @ [CHR 0x27] @ '' in bold typography, vibrant neon pink and cyan colors, black background, high contrast, 80s aesthetic''),
     (''minimalist'', ''A minimalist t-shirt design with the text '' @ [CHR 0x27] @ ''{trend}'' @ [CHR 0x27] @ '' in clean sans-serif typography, black text on white background, simple and elegant''),
     (''graffiti'', ''A graffiti street art style t-shirt design featuring the text '' @ [CHR 0x27] @ ''{trend}'' @ [CHR 0x27] @ '' in bold spray paint letters, urban aesthetic, colorful drips, black background''),
     (''vintage'', ''A vintage distressed t-shirt design with the text '' @ [CHR 0x27] @ ''{trend}'' @ [CHR 0x27] @ '' in retro typography, worn texture, cream and brown tones, classic americana style''),
     (''neon'', ''A neon glow t-shirt design featuring the text '' @ [CHR 0x27] @ ''{trend}'' @ [CHR 0x27] @ '' in bright glowing letters, cyberpunk style, dark background, electric colors''),
     (''cartoon'', ''A fun cartoon style t-shirt design with the text '' @ [CHR 0x27] @ ''{trend}'' @ [CHR 0x27] @ '' in playful bubble letters, bright colors, cute aesthetic, white background''),
     (''gothic'', ''A gothic dark aesthetic t-shirt design featuring the text '' @ [CHR 0x27] @ ''{trend}'' @ [CHR 0x27] @ '' in ornate blackletter typography, dark colors, mysterious vibe''),
     (''sports'', ''A bold sports team style t-shirt design with the text '' @ [CHR 0x27] @ ''{trend}'' @ [CHR 0x27] @ '' in athletic block letters, dynamic angles, team jersey aesthetic'')]"

text \<open>
  The services \<^verbatim>\<open>process_trend\<close> calls: \<^verbatim>\<open>str.format(trend=...)\<close> (it raises on a template
  with other fields), the inference client, the whole of \<^verbatim>\<open>remove_background\<close> (encode,
  \<^verbatim>\<open>rembg.remove\<close>, decode; any of them may raise), the clock as \<^verbatim>\<open>strftime\<close> renders it,
  and \<^verbatim>\<open>image.save\<close>.
\<close>

record services = pillow +
  str_format :: "string \<Rightarrow> string \<Rightarrow> py_exception + string"
  client_init :: "py_exception option"
  text_to_image :: "string \<Rightarrow> nat \<Rightarrow> image outcome"
  remove_background :: "image \<Rightarrow> py_exception + image"
  timestamp :: string
  save_png :: "image \<Rightarrow> string \<Rightarrow> py_exception option"

definition create_prompt :: "'x services_scheme \<Rightarrow> string \<Rightarrow> string \<Rightarrow> py_exception + string" where
  "create_prompt env trend style =
     (case (case map_of STYLE_PRESETS style of
              Some template \<Rightarrow> str_format env template trend
            | None \<Rightarrow>
                if sublist ''{trend}'' style then str_format env style trend
                else Inr (style @ '' with text '' @ [CHR 0x27] @ trend @ [CHR 0x27])) of
        Inl e \<Rightarrow> Inl e
      | Inr prompt \<Rightarrow> Inr (prompt @ '', high quality, vector art, print ready, centered composition''))"

text \<open>
  The post-processing and saving part of \<^verbatim>\<open>process_trend\<close>, from the generated image on.
  The result is the path returned together with the image that was written there.
  \<^verbatim>\<open>
  if remove_bg:
      try:
          image = remove_background(image)
      except Exception as e:
          print(...)    # Continue with original image
  if resize:
      if image.mode != 'RGBA':
          image = image.convert('RGBA')
      image = resize_for_print(image)
  ...
  image.save(output_path, 'PNG', optimize=True)
  return str(output_path)
  \<close>
\<close>

definition post_process ::
  "'x services_scheme \<Rightarrow> string \<Rightarrow> bool \<Rightarrow> bool \<Rightarrow> image \<Rightarrow> py_exception + string \<times> image" where
  "post_process env trend remove_bg resize img =
     (let img1 = (if remove_bg
                  then (case remove_background env img of Inl e \<Rightarrow> img | Inr removed \<Rightarrow> removed)
                  else img);
          sized = (if resize then
                     (case (if im_mode img1 \<noteq> ''RGBA'' then pil_convert env img1 ''RGBA'' else Inr img1) of
                        Inl e \<Rightarrow> Inl e
                      | Inr img2 \<Rightarrow> resize_for_print env img2 TSHIRT_WIDTH TSHIRT_HEIGHT)
                   else Inr img1)
      in case sized of
           Inl e \<Rightarrow> Inl e
         | Inr img3 \<Rightarrow>
            (let output_path = ''output/'' @ slugify trend @ ''_'' @ timestamp env @ ''.png''
             in case save_png env img3 output_path of
                  Some e \<Rightarrow> Inl e
                | None \<Rightarrow> Inr (output_path, img3)))"

text \<open>
  \<^verbatim>\<open>process_trend(trend, style, remove_bg, resize, hf_token)\<close>: \<open>Inr None\<close> is the
  \<^verbatim>\<open>return None\<close> after a failed generation.
\<close>

definition process_trend ::
  "'x services_scheme \<Rightarrow> string \<Rightarrow> string \<Rightarrow> bool \<Rightarrow> bool \<Rightarrow> py_exception + (string \<times> image) option" where
  "process_trend env trend style remove_bg resize =
     (case create_prompt env trend style of
        Inl e \<Rightarrow> Inl e
      | Inr prompt \<Rightarrow>
         (case snd (generate_design (client_init env) (text_to_image env) prompt 3) of
            Inl e \<Rightarrow> Inl e
          | Inr None \<Rightarrow> Inr None
          | Inr (Some img) \<Rightarrow>
             (case post_process env trend remove_bg resize img of
                Inl e \<Rightarrow> Inl e
              | Inr saved \<Rightarrow> Inr (Some saved))))"

text \<open>
  Stand-ins for the libraries, to run the model on: a resize that returns the requested
  size, a compositing that takes the source pixel, a conversion that only relabels the mode,
  a generator that succeeds at once with a red 7 by 10 image, and a background removal that
  always fails.
\<close>

definition red_image :: image where
  "red_image = \<lparr>im_width = 7, im_height = 10, im_mode = ''RGBA'', im_px = (\<lambda>x y. (255, 0, 0, 255))\<rparr>"

definition stub_pillow :: pillow where
  "stub_pillow =
     \<lparr>pil_resize = (\<lambda>im dims. Inr (im\<lparr>im_width := fst dims, im_height := snd dims\<rparr>)),
      pil_composite = (\<lambda>m src dst. src),
      pil_convert = (\<lambda>im mode. Inr (im\<lparr>im_mode := mode\<rparr>))\<rparr>"

definition stub_services :: services where
  "stub_services =
     pillow.extend stub_pillow
       (services.fields (\<lambda>template trend. Inr template) None (\<lambda>prompt attempt. Generated red_image)
          (\<lambda>im. Inl (LibraryError ''rembg failed'')) ''20240101_120000'' (\<lambda>im path. None))"

text \<open>
  A source so wide that its scaled height is 0, and a stand-in whose \<^verbatim>\<open>resize\<close> does what
  Pillow's does with such a size: it refuses a side below 1 with a \<^verbatim>\<open>ValueError\<close>.
\<close>

definition wide_image :: image where
  "wide_image = \<lparr>im_width = 1000000, im_height = 1, im_mode = ''RGBA'', im_px = (\<lambda>x y. (255, 0, 0, 255))\<rparr>"

definition strict_pillow :: pillow where
  "strict_pillow =
     stub_pillow\<lparr>pil_resize := (\<lambda>im dims.
        if fst dims < 1 \<or> snd dims < 1 then Inl (ValueError ''height and width must be > 0'')
        else Inr (im\<lparr>im_width := fst dims, im_height := snd dims\<rparr>))\<rparr>"

subsection \<open>\<^verbatim>\<open>printful_uploader.py\<close>: the product payload\<close>

text \<open>The class constants \<^verbatim>\<open>PRODUCTS\<close> and \<^verbatim>\<open>VARIANTS\<close>: dictionaries in insertion order.\<close>

definition PRODUCTS :: "(string \<times> nat) list" where
  "PRODUCTS =
    [(''unisex_tshirt'', 71), (''premium_tshirt'', 380), (''womens_tshirt'', 75),
     (''mens_tshirt'', 586), (''hoodie'', 146), (''sweatshirt'', 147)]"

definition VARIANTS :: "(string \<times> (string \<times> nat) list) list" where
  "VARIANTS =
    [(''unisex_tshirt'',
      [(''S_Black'', 4012), (''M_Black'', 4013), (''L_Black'', 4014), (''XL_Black'', 4015),
       (''S_White'', 4017), (''M_White'', 4018), (''L_White'', 4019), (''XL_White'', 4020),
       (''S_Navy'', 4022), (''M_Navy'', 4023), (''L_Navy'', 4024), (''XL_Navy'', 4025)])]"

text \<open>\<^verbatim>\<open>d[k]\<close> raises \<^verbatim>\<open>KeyError\<close> on a missing key; \<^verbatim>\<open>d.get(k, default)\<close> evaluates its
  default first (an argument), then looks the key up.\<close>

definition dict_index :: "(string \<times> 'v) list \<Rightarrow> string \<Rightarrow> py_exception + 'v" where
  "dict_index d k = (case map_of d k of None \<Rightarrow> Inl (KeyError k) | Some v \<Rightarrow> Inr v)"

definition dict_get :: "(string \<times> 'v) list \<Rightarrow> string \<Rightarrow> 'v \<Rightarrow> 'v" where
  "dict_get d k dflt = (case map_of d k of None \<Rightarrow> dflt | Some v \<Rightarrow> v)"

record position =
  area_width :: nat
  area_height :: nat
  pos_width :: nat
  pos_height :: nat
  pos_top :: nat
  pos_left :: nat

record 'fid print_file =
  file_type :: string
  file_id :: "'fid option"
  file_position :: position

record 'fid sync_variant =
  variant_id :: nat
  files :: "'fid print_file list"
  retail_price :: string

record 'fid product_data =
  sync_product_name :: string
  sync_product_thumbnail :: string
  sync_variants :: "'fid sync_variant list"

text \<open>The dictionary \<^verbatim>\<open>upload_file\<close> returns: \<^verbatim>\<open>.get\<close> of an absent key is \<^verbatim>\<open>None\<close>.\<close>

record 'fid file_info =
  fi_preview_url :: "string option"
  fi_url :: "string option"
  fi_id :: "'fid option"

text \<open>\<^verbatim>\<open>a or b\<close> on optional strings: \<^verbatim>\<open>None\<close> and the empty string are falsy.\<close>

definition truthy :: "string option \<Rightarrow> bool" where
  "truthy v = (case v of None \<Rightarrow> False | Some s \<Rightarrow> s \<noteq> [])"

definition py_or :: "string option \<Rightarrow> string option \<Rightarrow> string option" where
  "py_or a b = (if truthy a then a else b)"

text \<open>The body of the loop that fills \<^verbatim>\<open>sync_variants\<close>, for one \<^verbatim>\<open>(variant_name, variant_id)\<close>.\<close>

definition variant_entry :: "'fid option \<Rightarrow> string \<Rightarrow> string \<times> nat \<Rightarrow> 'fid sync_variant" where
  "variant_entry fid price_str nv =
     \<lparr>variant_id = snd nv,
      files = [\<lparr>file_type = ''front'', file_id = fid,
                file_position = \<lparr>area_width = 1800, area_height = 2400, pos_width = 1800,
                                  pos_height = 2400, pos_top = 0, pos_left = 0\<rparr>\<rparr>],
      retail_price = price_str\<rparr>"

text \<open>\<^verbatim>\<open>for variant_name, variant_id in list(variants.items())[:8]: sync_variants.append(...)\<close>\<close>

definition build_sync_variants ::
  "(string \<times> nat) list \<Rightarrow> 'fid option \<Rightarrow> string \<Rightarrow> 'fid sync_variant list" where
  "build_sync_variants variants fid price_str = map (variant_entry fid price_str) (take 8 variants)"

text \<open>
  \<^verbatim>\<open>create_product\<close> up to the request: \<open>upload_file\<close> is the HTTP upload (it may raise),
  \<open>str_price\<close> is Python's \<^verbatim>\<open>str\<close> on the float price, \<open>vtable\<close> is the class attribute
  \<^verbatim>\<open>VARIANTS\<close>. The result is the payload \<^verbatim>\<open>product_data\<close> handed to \<^verbatim>\<open>_request\<close>.
\<close>

definition create_product_payload ::
  "(string \<Rightarrow> py_exception + 'fid file_info) \<Rightarrow> ('p \<Rightarrow> string) \<Rightarrow>
   (string \<times> (string \<times> nat) list) list \<Rightarrow>
   string \<Rightarrow> string \<Rightarrow> string \<Rightarrow> 'p \<Rightarrow> py_exception + 'fid product_data" where
  "create_product_payload upload_file str_price vtable design_file title product_type price =
     (case upload_file design_file of
        Inl e \<Rightarrow> Inl e
      | Inr info \<Rightarrow>
         (let file_url = py_or (fi_preview_url info) (fi_url info) in
          if \<not> truthy file_url then Inl (ValueError ''Failed to get file URL from Printful'')
          else
            (case dict_index vtable ''unisex_tshirt'' of
               Inl e \<Rightarrow> Inl e
             | Inr dflt \<Rightarrow>
                (let variants = dict_get vtable product_type dflt in
                 Inr \<lparr>sync_product_name = title,
                      sync_product_thumbnail = the file_url,
                      sync_variants = build_sync_variants variants (fi_id info) (str_price price)\<rparr>))))"

section \<open>Theorems\<close>

subsection \<open>Rounding to binary64\<close>

lemma pow2_less_iff: "(2::rat) powi a < 2 powi b \<longleftrightarrow> a < b"
proof
  assume l: "(2::rat) powi a < 2 powi b"
  show "a < b"
  proof (rule ccontr)
    assume "\<not> a < b"
    then have "(2::rat) powi b \<le> 2 powi a" by (intro power_int_increasing) auto
    with l show False by simp
  qed
next
  assume "a < b"
  then show "(2::rat) powi a < 2 powi b" by (intro power_int_strict_increasing) auto
qed

lemma pow2_le_iff: "(2::rat) powi a \<le> 2 powi b \<longleftrightarrow> a \<le> b"
  using pow2_less_iff[of b a] by (auto simp: not_less[symmetric])

lemma pow2_nat: "0 \<le> k \<Longrightarrow> (2::rat) powi k = 2 ^ nat k"
  by (simp add: power_int_def)

lemma pow2_add: "(2::rat) powi (a + b) = 2 powi a * 2 powi b"
  by (simp add: power_int_add)

lemma pow2_diff: "(2::rat) powi (a - b) = 2 powi a / 2 powi b"
  by (simp add: power_int_diff)

lemma bitlen_rat_bounds:
  assumes "0 < p"
  shows "(2::rat) powi (bitlen p - 1) \<le> of_int p" and "of_int p < (2::rat) powi (bitlen p)"
proof -
  from bitlen_bounds[OF assms] have lo: "2 ^ nat (bitlen p - 1) \<le> p" and hi: "p < 2 ^ nat (bitlen p)"
    by simp_all
  have b1: "1 \<le> bitlen p"
    using assms bitlen_eq_zero_iff[of p] bitlen_nonneg[of p] by linarith
  from lo have "(of_int (2 ^ nat (bitlen p - 1)) :: rat) \<le> of_int p"
    by (simp only: of_int_le_iff)
  then show "(2::rat) powi (bitlen p - 1) \<le> of_int p"
    using b1 by (simp add: pow2_nat)
  from hi have "(of_int p :: rat) < of_int (2 ^ nat (bitlen p))"
    by (simp only: of_int_less_iff)
  then show "of_int p < (2::rat) powi (bitlen p)"
    using b1 by (simp add: pow2_nat)
qed

lemma ilog2_bounds:
  assumes "0 < x"
  shows "2 powi (ilog2 x) \<le> x" and "x < 2 powi (ilog2 x + 1)"
proof -
  obtain p q where pq: "quotient_of x = (p, q)" by (cases "quotient_of x")
  then have q: "0 < q" and x: "x = of_int p / of_int q"
    by (simp_all add: quotient_of_denom_pos quotient_of_div)
  from assms x q have p: "0 < p" by (simp add: zero_less_divide_iff)
  define e where "e = bitlen p - bitlen q"
  note P = bitlen_rat_bounds[OF p] and Q = bitlen_rat_bounds[OF q]
  have qpos: "(0::rat) < of_int q" using q by simp
  have "x < 2 powi (bitlen p) / 2 powi (bitlen q - 1)"
    unfolding x using P(2) Q(1) p by (intro frac_less) auto
  also have "\<dots> = 2 powi (e + 1)"
    by (simp add: e_def pow2_diff[symmetric] algebra_simps)
  finally have hi: "x < 2 powi (e + 1)" .
  have "(2::rat) powi (bitlen p - 1) / 2 powi (bitlen q) < x"
    unfolding x using P(1) Q(2) qpos by (intro frac_less2) auto
  then have lo: "2 powi (e - 1) < x"
    by (simp add: e_def pow2_diff[symmetric] algebra_simps)
  have il: "ilog2 x = (if x < 2 powi e then e - 1 else e)"
    by (simp add: ilog2_def pq e_def Let_def)
  show "2 powi (ilog2 x) \<le> x" using lo by (auto simp: il)
  show "x < 2 powi (ilog2 x + 1)" using hi by (auto simp: il)
qed

lemma ilog2_unique:
  assumes "2 powi k \<le> x" and "x < 2 powi (k + 1)"
  shows "ilog2 x = k"
proof -
  have x: "0 < x" using assms(1) by (rule less_le_trans[rotated]) simp
  from ilog2_bounds[OF x] assms have "(2::rat) powi (ilog2 x) < 2 powi (k + 1)"
    and "(2::rat) powi k < 2 powi (ilog2 x + 1)" by linarith+
  then show ?thesis by (simp add: pow2_less_iff)
qed

lemma ilog2_mono: "0 < x \<Longrightarrow> x \<le> y \<Longrightarrow> ilog2 x \<le> ilog2 y"
proof -
  assume x: "0 < x" and xy: "x \<le> y"
  then have y: "0 < y" by simp
  from ilog2_bounds(1)[OF x] ilog2_bounds(2)[OF y] xy
  have "(2::rat) powi (ilog2 x) < 2 powi (ilog2 y + 1)" by linarith
  then show ?thesis by (simp add: pow2_less_iff)
qed

lemma rne_of_int: "rne (of_int k) = k"
  by (simp add: rne_def)

lemma rne_range: "\<lfloor>y\<rfloor> \<le> rne y \<and> rne y \<le> \<lfloor>y\<rfloor> + 1"
  by (simp add: rne_def Let_def)

lemma rne_error: "\<bar>of_int (rne y) - y\<bar> \<le> 1 / 2"
proof -
  have "of_int \<lfloor>y\<rfloor> \<le> y" "y < of_int \<lfloor>y\<rfloor> + 1" by linarith+
  then show ?thesis by (auto simp: rne_def Let_def abs_le_iff)
qed

lemma rne_mono:
  assumes "x \<le> y"
  shows "rne x \<le> rne y"
proof (cases "\<lfloor>x\<rfloor> = \<lfloor>y\<rfloor>")
  case True
  with assms show ?thesis by (auto simp: rne_def Let_def)
next
  case False
  with floor_mono[OF assms] have "\<lfloor>x\<rfloor> + 1 \<le> \<lfloor>y\<rfloor>" by simp
  with rne_range[of x] rne_range[of y] show ?thesis by linarith
qed

lemma ulp_pos: "0 < ulp x"
  by (simp add: ulp_def)

lemma ulp_eq: "0 < x \<Longrightarrow> ulp x = 2 powi (ilog2 x) / 2 ^ 52"
  by (simp add: ulp_def pow2_diff)

lemma scaled_bounds:
  assumes "0 < x"
  shows "2 ^ 52 \<le> x / ulp x" and "x / ulp x < 2 ^ 53"
proof -
  have p: "(0::rat) < 2 powi (ilog2 x)" by simp
  have eq: "x / ulp x = x / 2 powi (ilog2 x) * 2 ^ 52"
    using assms by (simp add: ulp_eq)
  from ilog2_bounds(1)[OF assms] p have a: "1 \<le> x / 2 powi (ilog2 x)"
    by (simp add: le_divide_eq)
  have "(2::rat) ^ 52 = 1 * 2 ^ 52" by simp
  also have "\<dots> \<le> x / 2 powi (ilog2 x) * 2 ^ 52"
    by (rule mult_right_mono[OF a]) simp
  finally show "2 ^ 52 \<le> x / ulp x" unfolding eq .
  from ilog2_bounds(2)[OF assms] have "x < 2 powi (ilog2 x) * 2"
    by (simp add: pow2_add)
  with p have b: "x / 2 powi (ilog2 x) < 2" by (simp add: divide_less_eq mult.commute)
  have "x / 2 powi (ilog2 x) * 2 ^ 52 < 2 * 2 ^ 52"
    by (rule mult_strict_right_mono[OF b]) simp
  also have "\<dots> = (2::rat) ^ 53" by simp
  finally show "x / ulp x < 2 ^ 53" unfolding eq .
qed

lemma mant_bounds:
  assumes "0 < x"
  shows "2 ^ 52 \<le> rne (x / ulp x)" and "rne (x / ulp x) \<le> 2 ^ 53"
proof -
  have "rne (of_int (2 ^ 52)) \<le> rne (x / ulp x)"
    using scaled_bounds(1)[OF assms] by (intro rne_mono) simp
  then show "2 ^ 52 \<le> rne (x / ulp x)" by (simp only: rne_of_int)
  have "rne (x / ulp x) \<le> rne (of_int (2 ^ 53))"
    using scaled_bounds(2)[OF assms] by (intro rne_mono) simp
  then show "rne (x / ulp x) \<le> 2 ^ 53" by (simp only: rne_of_int)
qed

lemma fl_bounds:
  assumes "0 < x"
  shows "2 powi (ilog2 x) \<le> fl x" and "fl x \<le> 2 powi (ilog2 x + 1)"
proof -
  have f: "fl x = of_int (rne (x / ulp x)) * ulp x" using assms by (simp add: fl_def)
  have lo: "(2::rat) ^ 52 \<le> of_int (rne (x / ulp x))"
    using mant_bounds(1)[OF assms] by (metis of_int_le_iff of_int_numeral of_int_power)
  have hi: "of_int (rne (x / ulp x)) \<le> (2::rat) ^ 53"
    using mant_bounds(2)[OF assms] by (metis of_int_le_iff of_int_numeral of_int_power)
  have "2 powi (ilog2 x) = 2 ^ 52 * ulp x" using assms by (simp add: ulp_eq)
  also have "\<dots> \<le> fl x" unfolding f using lo ulp_pos[of x] by (intro mult_right_mono) auto
  finally show "2 powi (ilog2 x) \<le> fl x" .
  have "fl x \<le> 2 ^ 53 * ulp x" unfolding f using hi ulp_pos[of x] by (intro mult_right_mono) auto
  also have "\<dots> = 2 powi (ilog2 x + 1)" using assms by (simp add: ulp_eq pow2_add)
  finally show "fl x \<le> 2 powi (ilog2 x + 1)" .
qed

lemma fl_pos: "0 < x \<Longrightarrow> 0 < fl x"
  using fl_bounds(1)[of x] by (rule_tac less_le_trans[of _ "2 powi (ilog2 x)"]) simp_all

lemma fl_error:
  assumes "0 < x"
  shows "\<bar>fl x - x\<bar> \<le> x / 2 ^ 53"
proof -
  have f: "fl x = of_int (rne (x / ulp x)) * ulp x" using assms by (simp add: fl_def)
  have "fl x - x = (of_int (rne (x / ulp x)) - x / ulp x) * ulp x"
    using ulp_pos[of x] by (simp add: f algebra_simps)
  then have "\<bar>fl x - x\<bar> = \<bar>of_int (rne (x / ulp x)) - x / ulp x\<bar> * ulp x"
    using ulp_pos[of x] by (simp add: abs_mult)
  also have "\<dots> \<le> 1 / 2 * ulp x"
    using rne_error[of "x / ulp x"] ulp_pos[of x] by (intro mult_right_mono) auto
  also have "\<dots> = 2 powi (ilog2 x) / 2 ^ 53" using assms by (simp add: ulp_eq)
  also have "\<dots> \<le> x / 2 ^ 53"
    using ilog2_bounds(1)[OF assms] by (intro divide_right_mono) auto
  finally show ?thesis .
qed

lemma fl_integral:
  assumes "x / ulp x = of_int k"
  shows "fl x = x"
proof (cases "x = 0")
  case True
  then show ?thesis by (simp add: fl_def)
next
  case False
  have "x = of_int k * ulp x" using assms ulp_pos[of x] by (simp add: field_simps)
  with False show ?thesis by (simp add: fl_def assms rne_of_int)
qed

lemma fl_repr:
  assumes "2 ^ 52 \<le> m" and "m \<le> 2 ^ 53"
  shows "fl (of_int m * 2 powi k) = of_int m * 2 powi k"
proof -
  let ?x = "of_int m * (2::rat) powi k"
  have mlo: "(2::rat) ^ 52 \<le> of_int m"
    using assms(1) by (metis of_int_le_iff of_int_numeral of_int_power)
  have mhi: "of_int m \<le> (2::rat) ^ 53"
    using assms(2) by (metis of_int_le_iff of_int_numeral of_int_power)
  have x: "0 < ?x" using mlo by (intro mult_pos_pos) auto
  show ?thesis
  proof (cases "m = 2 ^ 53")
    case True
    then have xe: "?x = 2 powi (k + 53)" by (simp add: pow2_add)
    have "ilog2 ?x = k + 53"
      unfolding xe by (rule ilog2_unique) (simp_all add: pow2_le_iff pow2_less_iff)
    then have "ulp ?x = 2 powi (k + 1)" using x by (simp add: ulp_def add.commute)
    then have "?x / ulp ?x = of_int (2 ^ 52)"
      unfolding xe by (simp add: pow2_add)
    then show ?thesis by (rule fl_integral)
  next
    case False
    with assms(2) have "m < 2 ^ 53" by simp
    then have mhi': "of_int m < (2::rat) ^ 53"
      by (metis of_int_less_iff of_int_numeral of_int_power)
    have "ilog2 ?x = k + 52"
    proof (rule ilog2_unique)
      show "2 powi (k + 52) \<le> ?x"
        using mlo by (simp add: pow2_add mult.commute)
      show "?x < 2 powi (k + 52 + 1)"
        using mhi' by (simp add: pow2_add mult.commute)
    qed
    then have "ulp ?x = 2 powi k" using x by (simp add: ulp_def)
    then have "?x / ulp ?x = of_int m" by simp
    then show ?thesis by (rule fl_integral)
  qed
qed

lemma fl_idem:
  assumes "0 \<le> x"
  shows "fl (fl x) = fl x"
proof (cases "x = 0")
  case True
  then show ?thesis by (simp add: fl_def)
next
  case False
  with assms have x: "0 < x" by simp
  then have f: "fl x = of_int (rne (x / ulp x)) * 2 powi (ilog2 x - 52)"
    by (simp add: fl_def ulp_def)
  show ?thesis unfolding f
    using mant_bounds[OF x] by (intro fl_repr)
qed

lemma fl_of_int:
  assumes "0 \<le> n" and "n \<le> 2 ^ 53"
  shows "fl (of_int n) = of_int n"
proof (cases "n = 0")
  case True
  then show ?thesis by (simp add: fl_def)
next
  case False
  with assms have n: "0 < n" by simp
  let ?x = "of_int n :: rat"
  have x: "0 < ?x" using n by simp
  have nhi: "?x \<le> 2 ^ 53"
    using assms(2) by (metis of_int_le_iff of_int_numeral of_int_power)
  have e53: "ilog2 ?x \<le> 53"
  proof -
    from ilog2_bounds(1)[OF x] nhi have "(2::rat) powi (ilog2 ?x) \<le> 2 powi 53" by simp
    then show ?thesis by (simp only: pow2_le_iff)
  qed
  show ?thesis
  proof (cases "ilog2 ?x = 53")
    case True
    with ilog2_bounds(1)[OF x] nhi have "?x = 2 ^ 53" by simp
    moreover have "fl (of_int (2 ^ 53) * 2 powi 0) = of_int (2 ^ 53) * 2 powi 0"
      by (rule fl_repr) simp_all
    ultimately show ?thesis by simp
  next
    case False
    with e53 have e52: "ilog2 ?x \<le> 52" by simp
    define d where "d = nat (52 - ilog2 ?x)"
    have u: "ulp ?x = 1 / 2 ^ d"
      using x e52 by (simp add: ulp_def d_def power_int_def field_simps)
    have "?x / ulp ?x = of_int (n * 2 ^ d)" by (simp add: u)
    then show ?thesis by (rule fl_integral)
  qed
qed

lemma fl_mono:
  assumes "0 \<le> x" and "x \<le> y"
  shows "fl x \<le> fl y"
proof (cases "x = 0")
  case True
  show ?thesis
  proof (cases "y = 0")
    case True
    with \<open>x = 0\<close> show ?thesis by simp
  next
    case False
    with assms True have "0 < y" by simp
    from fl_pos[OF this] True show ?thesis by (simp add: fl_def)
  qed
next
  case False
  with assms have x: "0 < x" and y: "0 < y" by simp_all
  show ?thesis
  proof (cases "ilog2 x = ilog2 y")
    case True
    then have u: "ulp x = ulp y" using x y by (simp add: ulp_def)
    have "x / ulp y \<le> y / ulp y" using assms(2) ulp_pos[of y] by (intro divide_right_mono) auto
    then have "rne (x / ulp y) \<le> rne (y / ulp y)" by (rule rne_mono)
    then have "(of_int (rne (x / ulp y)) :: rat) \<le> of_int (rne (y / ulp y))" by simp
    then have "of_int (rne (x / ulp y)) * ulp y \<le> of_int (rne (y / ulp y)) * ulp y"
      using ulp_pos[of y] by (intro mult_right_mono) auto
    then show ?thesis using x y by (simp add: fl_def u)
  next
    case False
    with ilog2_mono[OF x assms(2)] have "ilog2 x + 1 \<le> ilog2 y" by simp
    then have "(2::rat) powi (ilog2 x + 1) \<le> 2 powi (ilog2 y)" by (simp only: pow2_le_iff)
    with fl_bounds(2)[OF x] fl_bounds(1)[OF y] show ?thesis by linarith
  qed
qed

lemma fl_upper:
  assumes "0 \<le> x"
  shows "fl x \<le> x * (1 + 1 / 2 ^ 53)"
proof (cases "x = 0")
  case True
  then show ?thesis by (simp add: fl_def)
next
  case False
  with assms have "0 < x" by simp
  have "fl x - x \<le> \<bar>fl x - x\<bar>" by simp
  also note fl_error[OF \<open>0 < x\<close>]
  finally have "fl x \<le> x + x / 2 ^ 53" by linarith
  also have "\<dots> = x * (1 + 1 / 2 ^ 53)" by (simp add: algebra_simps)
  finally show ?thesis .
qed

lemma fl_nonneg: "0 \<le> x \<Longrightarrow> 0 \<le> fl x"
  using fl_pos[of x] by (cases "x = 0") (auto simp: fl_def less_imp_le)

lemma of_int_pow_le: "n \<le> 2 ^ k \<Longrightarrow> (of_int n :: rat) \<le> 2 ^ k"
  by (metis of_int_le_iff of_int_numeral of_int_power)

lemma wide_branch:
  assumes iw: "0 \<le> iw" and ih: "0 < ih" and W: "0 < W" "W \<le> 2 ^ 51" and H: "0 < H" "H \<le> 2 ^ 51"
    and gt: "fl (of_int W / of_int H) < fl (of_int iw / of_int ih)"
  shows "0 < fl (of_int iw / of_int ih)"
    and "0 \<le> fl (of_int W / fl (of_int iw / of_int ih))"
    and "fl (of_int W / fl (of_int iw / of_int ih)) \<le> of_int H"
proof -
  let ?r = "fl (of_int iw / of_int ih)" and ?t = "fl (of_int W / of_int H)"
  have q0: "(0::rat) \<le> of_int iw / of_int ih" using iw ih by simp
  have r0: "0 \<le> ?r" using q0 by (rule fl_nonneg)
  have wh: "(0::rat) < of_int W / of_int H" using W H by simp
  have exact: "of_int W / of_int H < ?r"
  proof (rule ccontr)
    assume "\<not> of_int W / of_int H < ?r"
    then have "?r \<le> of_int W / of_int H" by simp
    with r0 have "fl ?r \<le> ?t" by (rule fl_mono)
    with fl_idem[OF q0] gt show False by simp
  qed
  with wh show rpos: "0 < ?r" by linarith
  have Hpos: "(0::rat) < of_int H" using H by simp
  from exact Hpos have "of_int W < ?r * of_int H" by (simp add: divide_less_eq)
  with rpos have lt: "of_int W / ?r < of_int H" by (simp add: divide_less_eq mult.commute)
  have nn: "(0::rat) \<le> of_int W / ?r" using W rpos by simp
  then show "0 \<le> fl (of_int W / ?r)" by (rule fl_nonneg)
  have "fl (of_int W / ?r) \<le> fl (of_int H)" using nn lt by (intro fl_mono) simp_all
  also have "fl (of_int H) = of_int H" using H by (intro fl_of_int) simp_all
  finally show "fl (of_int W / ?r) \<le> of_int H" .
qed

lemma tall_branch:
  assumes iw: "0 \<le> iw" and ih: "0 < ih" and W: "0 < W" "W \<le> 2 ^ 51" and H: "0 < H" "H \<le> 2 ^ 51"
    and le: "fl (of_int iw / of_int ih) \<le> fl (of_int W / of_int H)"
  shows "0 \<le> fl (of_int H * fl (of_int iw / of_int ih))"
    and "fl (of_int H * fl (of_int iw / of_int ih)) < of_int W + 1"
proof -
  let ?r = "fl (of_int iw / of_int ih)" and ?t = "fl (of_int W / of_int H)"
  let ?e = "1 + 1 / 2 ^ 53 :: rat"
  have q0: "(0::rat) \<le> of_int iw / of_int ih" using iw ih by simp
  have r0: "0 \<le> ?r" using q0 by (rule fl_nonneg)
  have Hpos: "(0::rat) < of_int H" using H by simp
  have Wpos: "(0::rat) < of_int W" using W by simp
  have x0: "0 \<le> of_int H * ?r" using Hpos r0 by simp
  then show "0 \<le> fl (of_int H * ?r)" by (rule fl_nonneg)
  have "?t \<le> of_int W / of_int H * ?e" using W H by (intro fl_upper) simp
  with le have "?r \<le> of_int W / of_int H * ?e" by linarith
  then have "of_int H * ?r \<le> of_int H * (of_int W / of_int H * ?e)"
    using Hpos by (intro mult_left_mono) simp_all
  also have "\<dots> = of_int W * ?e" using Hpos by simp
  finally have xle: "of_int H * ?r \<le> of_int W * ?e" .
  have "fl (of_int H * ?r) \<le> of_int H * ?r * ?e" using x0 by (rule fl_upper)
  also have "\<dots> \<le> of_int W * ?e * ?e" using xle by (intro mult_right_mono) simp_all
  also have "\<dots> = of_int W + of_int W * (2 / 2 ^ 53 + 1 / (2 ^ 53 * 2 ^ 53))"
    by (simp add: algebra_simps)
  also have "\<dots> < of_int W + 1"
  proof -
    have "(of_int W :: rat) * (2 / 2 ^ 53 + 1 / (2 ^ 53 * 2 ^ 53)) \<le> 2 ^ 51 * (2 / 2 ^ 53 + 1 / (2 ^ 53 * 2 ^ 53))"
      using of_int_pow_le[OF W(2)] by (intro mult_right_mono) simp_all
    also have "\<dots> < 1" by simp
    finally show ?thesis by simp
  qed
  finally show "fl (of_int H * ?r) < of_int W + 1" .
qed


subsection \<open>The shape of a slug\<close>

lemma lower_char_idem: "lower_char (lower_char c) = lower_char c"
  by (simp add: lower_char_def Let_def)

lemma no_double_Nil: "no_double []"
  by (simp add: no_double_def)

lemma no_double_Cons:
  "no_double (c # cs) \<longleftrightarrow> (cs = [] \<or> (\<not> (c = CHR ''_'' \<and> hd cs = CHR ''_'') \<and> no_double cs))"
  by (cases cs) (auto simp: no_double_def not_both_def)

lemma kept_underscore: "kept (CHR ''_'')"
  by (simp add: kept_def is_word_def)

lemma lower_underscore: "lower_char (CHR ''_'') = CHR ''_''"
  by (simp add: lower_char_def)

lemma sub_runs_chars:
  assumes "\<forall>c \<in> set s. P c" and "P (CHR ''_'')"
  shows "\<forall>c \<in> set (sub_runs b s). P c"
  using assms by (induction s arbitrary: b) auto

lemma sub_runs_separators:
  "\<forall>c \<in> set (sub_runs b s). separator c \<longrightarrow> c = CHR ''_''"
  by (induction s arbitrary: b) auto

lemma sub_runs_no_double:
  "no_double (sub_runs b s) \<and> (b \<longrightarrow> sub_runs b s = [] \<or> hd (sub_runs b s) \<noteq> CHR ''_'')"
proof (induction s arbitrary: b)
  case Nil
  show ?case by (simp add: no_double_Nil)
next
  case (Cons c cs)
  show ?case
  proof (cases "separator c")
    case True
    with Cons[of True] show ?thesis
      by (auto simp: no_double_Cons no_double_Nil)
  next
    case False
    then have "c \<noteq> CHR ''_''" by (auto simp: separator_def)
    with False Cons[of False] show ?thesis
      by (auto simp: no_double_Cons no_double_Nil)
  qed
qed

lemma sub_runs_fixed:
  assumes "\<forall>c \<in> set s. separator c \<longrightarrow> c = CHR ''_''" and "no_double s"
    and "b \<longrightarrow> s = [] \<or> hd s \<noteq> CHR ''_''"
  shows "sub_runs b s = s"
  using assms
proof (induction s arbitrary: b)
  case Nil
  show ?case by simp
next
  case (Cons c cs)
  show ?case
  proof (cases "separator c")
    case True
    with Cons.prems have c: "c = CHR ''_''" and nb: "\<not> b" by auto
    from Cons.prems(2) c have "cs = [] \<or> hd cs \<noteq> CHR ''_''"
      by (auto simp: no_double_Cons)
    moreover from Cons.prems(2) have "no_double cs" by (auto simp: no_double_Cons no_double_Nil)
    ultimately have "sub_runs True cs = cs" using Cons.prems(1) by (intro Cons.IH) auto
    with True c nb show ?thesis by simp
  next
    case False
    from Cons.prems(2) have "no_double cs" by (auto simp: no_double_Cons no_double_Nil)
    then have "sub_runs False cs = cs" using Cons.prems(1) by (intro Cons.IH) auto
    with False show ?thesis by simp
  qed
qed

lemma no_double_dropWhile: "no_double s \<Longrightarrow> no_double (dropWhile P s)"
  unfolding no_double_def by (metis successively_append_iff takeWhile_dropWhile_id)

lemma not_both_flip: "(\<lambda>x y. not_both y x) = not_both"
  by (auto simp: fun_eq_iff not_both_def)

lemma no_double_rev: "no_double (rev s) = no_double s"
  unfolding no_double_def successively_rev not_both_flip by (rule refl)

lemma py_strip_subset: "set (py_strip ch s) \<subseteq> set s"
  by (auto simp: py_strip_def dest!: set_dropWhileD)

lemma py_strip_no_double: "no_double s \<Longrightarrow> no_double (py_strip ch s)"
  unfolding py_strip_def by (simp add: no_double_rev no_double_dropWhile)

lemma dropWhile_hd: "dropWhile P s = [] \<or> \<not> P (hd (dropWhile P s))"
  using hd_dropWhile by blast

lemma py_strip_ends: "py_strip ch s = [] \<or> (hd (py_strip ch s) \<noteq> ch \<and> last (py_strip ch s) \<noteq> ch)"
proof (cases "py_strip ch s = []")
  case True
  then show ?thesis by simp
next
  case False
  let ?a = "dropWhile (\<lambda>c. c = ch) s"
  let ?b = "dropWhile (\<lambda>c. c = ch) (rev ?a)"
  from False have b: "?b \<noteq> []" by (simp add: py_strip_def)
  then have a: "?a \<noteq> []" by (auto dest: set_dropWhileD)
  have "hd ?b \<noteq> ch" using b hd_dropWhile[of "\<lambda>c. c = ch" "rev ?a"] by blast
  then have l: "last (py_strip ch s) \<noteq> ch" using b by (simp add: py_strip_def last_rev)
  have ha: "hd ?a \<noteq> ch" using a hd_dropWhile[of "\<lambda>c. c = ch" s] by blast
  obtain ys where ys: "rev ?a = ys @ ?b" by (metis takeWhile_dropWhile_id)
  then have "?a = rev ?b @ rev ys" by (metis rev_append rev_rev_ident)
  then have "hd ?a = hd (rev ?b)" using b by (metis hd_append2 rev_is_Nil_conv)
  with ha have "hd (py_strip ch s) \<noteq> ch" by (simp add: py_strip_def)
  with l show ?thesis by simp
qed

lemma py_strip_fixed:
  assumes "s = [] \<or> (hd s \<noteq> ch \<and> last s \<noteq> ch)"
  shows "py_strip ch s = s"
proof (cases "s = []")
  case True
  then show ?thesis by (simp add: py_strip_def)
next
  case False
  with assms have h: "hd s \<noteq> ch" and l: "last s \<noteq> ch" by auto
  from False h have 1: "dropWhile (\<lambda>c. c = ch) s = s" by (cases s) auto
  from False l have "hd (rev s) \<noteq> ch" by (simp add: hd_rev)
  with False have 2: "dropWhile (\<lambda>c. c = ch) (rev s) = rev s" by (cases "rev s") auto
  show ?thesis by (simp add: py_strip_def 1 2)
qed

lemma slug_chars_subset: "slug_chars s \<Longrightarrow> set t \<subseteq> set s \<Longrightarrow> slug_chars t"
  unfolding slug_chars_def by blast

lemma slugify_chars: "slug_chars (slugify text)"
proof -
  let ?t2 = "filter kept (py_lower text)"
  have a: "lower_char c = c \<and> kept c" if "c \<in> set ?t2" for c
  proof -
    from that obtain x where "c = lower_char x" and "kept c"
      unfolding py_lower_def by auto
    then show ?thesis by (simp add: lower_char_idem)
  qed
  then have "\<forall>c \<in> set ?t2. lower_char c = c \<and> kept c" by blast
  then have b: "\<forall>c \<in> set (sub_runs False ?t2). lower_char c = c \<and> kept c"
    by (rule sub_runs_chars) (simp add: kept_underscore lower_underscore)
  have "slug_chars (sub_runs False ?t2)"
    unfolding slug_chars_def using b sub_runs_separators[of False ?t2] by blast
  then have "slug_chars (py_strip (CHR ''_'') (sub_runs False ?t2))"
    using py_strip_subset by (rule slug_chars_subset)
  then show ?thesis by (simp add: slugify_def Let_def)
qed

subsection \<open>The retry loop\<close>





subsection \<open>Claims about \<^verbatim>\<open>generate_design\<close>\<close>







subsection \<open>Claim about \<^verbatim>\<open>get_trending_topics\<close>\<close>

lemma ranked_fallback:
  "ranked 10 fallback =
     [\<lparr>query = ''AI Generated Art'', value = 100\<rparr>, \<lparr>query = ''Viral Memes 2024'', value = 90\<rparr>,
      \<lparr>query = ''Trending Now'', value = 80\<rparr>, \<lparr>query = ''Just Vibing'', value = 70\<rparr>,
      \<lparr>query = ''No Cap'', value = 60\<rparr>]"
  by (simp add: ranked_def fallback_def enumerate_eq_zip upt_rec)

text \<open>
  What the handler does for an exception raised inside the \<^verbatim>\<open>try\<close> block (either request,
  or reading the column): the five fallback queries with the ranks 100, 90, 80, 70, 60,
  whatever the region, the time frame and the limit are.
\<close>

lemma failure_inside_try_gives_fallback:
  assumes "TrendReq lib = Inr client"
    and "fetch_trends lib client region limit = Inl e"
  shows "get_trending_topics lib region timeframe limit =
     Inr [\<lparr>query = ''AI Generated Art'', value = 100\<rparr>, \<lparr>query = ''Viral Memes 2024'', value = 90\<rparr>,
          \<lparr>query = ''Trending Now'', value = 80\<rparr>, \<lparr>query = ''Just Vibing'', value = 70\<rparr>,
          \<lparr>query = ''No Cap'', value = 60\<rparr>]"
  using assms by (simp add: get_trending_topics_def ranked_fallback)

lemma constructor_failure_propagates:
  "TrendReq lib = Inl e \<Longrightarrow> get_trending_topics lib region timeframe limit = Inl e"
  by (simp add: get_trending_topics_def)

text \<open>
  C7. The claim is that whenever the trend fetch raises an exception, a network failure
  for one, \<^verbatim>\<open>get_trending_topics\<close> returns the five-item fallback list. The code builds
  the pytrends client before it enters the \<^verbatim>\<open>try\<close> block, and without a network it is the
  constructor that raises first: the exception leaves \<^verbatim>\<open>get_trending_topics\<close> and no
  fallback list is returned.
\<close>

theorem network_failure_escapes_fallback:
  "get_trending_topics network_down ''US'' ''now 1-H'' 10 = Inl (LibraryError ''ConnectionError'')"
  by (simp add: get_trending_topics_def network_down_def)

subsection \<open>Claims about \<^verbatim>\<open>resize_for_print\<close>\<close>

text \<open>
  C2, as the code has it. For a source of width \<open>iw \<ge> 0\<close> and height \<open>ih > 0\<close> and target
  dimensions between 1 and \<open>2^51\<close>, with \<open>r\<close> the float \<^verbatim>\<open>image.width / image.height\<close> and
  \<open>t\<close> the float \<^verbatim>\<open>width / height\<close>: if \<open>r > t\<close> the scaled width is the target width and
  the scaled height is the float quotient \<^verbatim>\<open>width / r\<close> truncated to an integer (not
  rounded to the nearest), which lies between 0 and the target height; otherwise the scaled
  height is the target height and the scaled width is the float product \<^verbatim>\<open>height * r\<close>
  truncated, which lies between 0 and the target width. (For pixel counts, all the float
  operations involved stay within the normal range of binary64, where \<open>fl\<close> is exact about
  what Python computes.)
\<close>

theorem scaled_size_fits:
  assumes "0 \<le> iw" and "0 < ih" and "0 < W" and "W \<le> 2 ^ 51" and "0 < H" and "H \<le> 2 ^ 51"
  shows "let r = fl (of_int iw / of_int ih); t = fl (of_int W / of_int H) in
         if t < r then
           scaled_size iw ih W H = Inr (W, \<lfloor>fl (of_int W / r)\<rfloor>)
           \<and> 0 \<le> \<lfloor>fl (of_int W / r)\<rfloor> \<and> \<lfloor>fl (of_int W / r)\<rfloor> \<le> H
         else
           scaled_size iw ih W H = Inr (\<lfloor>fl (of_int H * r)\<rfloor>, H)
           \<and> 0 \<le> \<lfloor>fl (of_int H * r)\<rfloor> \<and> \<lfloor>fl (of_int H * r)\<rfloor> \<le> W"
proof -
  let ?r = "fl (of_int iw / of_int ih)" and ?t = "fl (of_int W / of_int H)"
  have fW: "float_of_int W = of_int W"
    unfolding float_of_int_def using assms by (intro fl_of_int) simp_all
  have fH: "float_of_int H = of_int H"
    unfolding float_of_int_def using assms by (intro fl_of_int) simp_all
  have ne: "ih \<noteq> 0" "H \<noteq> 0" using assms by simp_all
  show ?thesis
  proof (cases "?t < ?r")
    case True
    note wb = wide_branch[OF assms True]
    from wb(1) have rne0: "?r \<noteq> 0" by simp
    have s: "scaled_size iw ih W H = Inr (W, \<lfloor>fl (of_int W / ?r)\<rfloor>)"
      using True ne rne0 wb(2)
      by (simp add: scaled_size_def int_truediv_def float_div_def fW py_int_def)
    have "\<lfloor>fl (of_int W / ?r)\<rfloor> \<le> \<lfloor>of_int H :: rat\<rfloor>" using wb(3) by (rule floor_mono)
    then have "\<lfloor>fl (of_int W / ?r)\<rfloor> \<le> H" by simp
    moreover have "0 \<le> \<lfloor>fl (of_int W / ?r)\<rfloor>" using wb(2) by simp
    ultimately show ?thesis using True s by (simp add: Let_def)
  next
    case False
    then have le: "?r \<le> ?t" by simp
    note tb = tall_branch[OF assms le]
    have s: "scaled_size iw ih W H = Inr (\<lfloor>fl (of_int H * ?r)\<rfloor>, H)"
      using False ne tb(1)
      by (simp add: scaled_size_def int_truediv_def float_mul_def fH py_int_def)
    have "fl (of_int H * ?r) < of_int (W + 1)" using tb(2) by simp
    then have "\<lfloor>fl (of_int H * ?r)\<rfloor> < W + 1" by (simp only: floor_less_iff)
    then have "\<lfloor>fl (of_int H * ?r)\<rfloor> \<le> W" by simp
    moreover have "0 \<le> \<lfloor>fl (of_int H * ?r)\<rfloor>" using tb(1) by simp
    ultimately show ?thesis using False s by (simp add: Let_def)
  qed
qed

theorem scaled_size_fits_witness:
  "scaled_size 7 10 4500 5400 = Inr (3779, 5400) \<and> (0::int) \<le> 3779 \<and> (3779::int) \<le> 4500"
proof -
  have c: "\<not> fl (4500 / 5400) < fl (7 / 10)" by code_simp
  have v: "\<lfloor>fl (5400 * fl (7 / 10))\<rfloor> = 3779" by code_simp
  from scaled_size_fits[of 7 10 4500 5400] c v show ?thesis
    by (simp add: Let_def)
qed

text \<open>
  The claim as stated has the scaled height rounded. For an 11 by 8 source and the default
  4500 by 5400 target the source is the wider one, the code returns the height 3272, and the
  quotient \<open>4500 / 1.375 = 3272.72...\<close> rounds to 3273 (to nearest, with either treatment of
  ties, of the exact and of the float quotient).
\<close>

theorem scaled_height_truncated_counterexample:
  "fl (4500 / 5400) < fl (11 / 8)
   \<and> scaled_size 11 8 4500 5400 = Inr (4500, 3272)
   \<and> round (4500 / fl (11 / 8)) = 3273
   \<and> rne (4500 / fl (11 / 8)) = 3273
   \<and> round (fl (4500 / fl (11 / 8))) = 3273
   \<and> rne (fl (4500 / fl (11 / 8))) = 3273"
  by code_simp

lemma scaled_size_defined:
  assumes "0 \<le> iw" and "0 < ih" and "0 \<le> W" and "0 < H"
  shows "\<exists>new_size. scaled_size iw ih W H = Inr new_size"
proof -
  let ?r = "fl (of_int iw / of_int ih)" and ?t = "fl (of_int W / of_int H)"
  have "0 \<le> ?t" using assms by (intro fl_nonneg) simp
  then have "?t < ?r \<Longrightarrow> ?r \<noteq> 0" by simp
  then show ?thesis
    using assms(2,4)
    by (cases "?t < ?r") (simp_all add: scaled_size_def int_truediv_def float_div_def)
qed

lemma paste_outside:
  "\<not> in_box pos im x y \<Longrightarrow> im_px (paste composite canvas im pos mask_im) x y = im_px canvas x y"
  by (simp add: paste_def)

lemma paste_frame:
  "im_width (paste composite canvas im pos mask_im) = im_width canvas"
  "im_height (paste composite canvas im pos mask_im) = im_height canvas"
  "im_mode (paste composite canvas im pos mask_im) = im_mode canvas"
  by (simp_all add: paste_def)

lemma resize_for_print_run:
  assumes "scaled_size (im_width img) (im_height img) width height = Inr (new_width, new_height)"
    and "pil_resize lib img (new_width, new_height) = Inr resized"
    and "0 \<le> width" and "0 \<le> height"
  shows "resize_for_print lib img width height
         = Inr (paste (pil_composite lib)
                  \<lparr>im_width = width, im_height = height, im_mode = ''RGBA'', im_px = (\<lambda>x y. transparent)\<rparr>
                  resized ((width - new_width) div 2, (height - new_height) div 2)
                  (if im_mode resized = ''RGBA'' then Some resized else None))"
  using assms by (simp add: resize_for_print_def image_new_def Let_def)

text \<open>
  C3. For every input bitmap of nonzero dimensions and every positive target size, the
  scaled size is defined, and whenever Pillow's \<^verbatim>\<open>resize\<close> returns the scaled image,
  \<^verbatim>\<open>resize_for_print\<close> returns a bitmap of exactly the target width and height, in mode
  RGBA, all of whose pixels outside the pasted scaled image are fully transparent.
\<close>

theorem resize_for_print_canvas:
  assumes "0 < im_width img" and "0 < im_height img" and "0 < width" and "0 < height"
  shows "\<exists>new_size. scaled_size (im_width img) (im_height img) width height = Inr new_size \<and>
     (\<forall>resized. pil_resize lib img new_size = Inr resized \<longrightarrow>
        (\<exists>out. resize_for_print lib img width height = Inr out
           \<and> im_width out = width \<and> im_height out = height \<and> im_mode out = ''RGBA''
           \<and> (\<forall>x y. \<not> in_box ((width - fst new_size) div 2, (height - snd new_size) div 2) resized x y
                  \<longrightarrow> im_px out x y = transparent)))"
proof -
  from scaled_size_defined[of "im_width img" "im_height img" width height] assms
  obtain new_size where s: "scaled_size (im_width img) (im_height img) width height = Inr new_size"
    by auto
  obtain nw nh where n: "new_size = (nw, nh)" by (cases new_size)
  have "\<exists>out. resize_for_print lib img width height = Inr out
           \<and> im_width out = width \<and> im_height out = height \<and> im_mode out = ''RGBA''
           \<and> (\<forall>x y. \<not> in_box ((width - fst new_size) div 2, (height - snd new_size) div 2) resized x y
                  \<longrightarrow> im_px out x y = transparent)"
    if r: "pil_resize lib img new_size = Inr resized" for resized
  proof -
    have "resize_for_print lib img width height
         = Inr (paste (pil_composite lib)
                  \<lparr>im_width = width, im_height = height, im_mode = ''RGBA'', im_px = (\<lambda>x y. transparent)\<rparr>
                  resized ((width - nw) div 2, (height - nh) div 2)
                  (if im_mode resized = ''RGBA'' then Some resized else None))"
      using s r assms(3,4) unfolding n by (intro resize_for_print_run) simp_all
    then show ?thesis by (simp add: n paste_frame paste_outside)
  qed
  with s show ?thesis by blast
qed

theorem resize_for_print_canvas_witness:
  "\<exists>out. resize_for_print stub_pillow red_image 4500 5400 = Inr out
     \<and> im_width out = 4500 \<and> im_height out = 5400 \<and> im_mode out = ''RGBA''
     \<and> im_px out 0 0 = transparent \<and> im_px out 4499 5399 = transparent"
proof -
  have d: "im_width red_image = 7" "im_height red_image = 10" by (simp_all add: red_image_def)
  have sz: "scaled_size 7 10 4500 5400 = Inr (3779, 5400)" by code_simp
  let ?resized = "red_image\<lparr>im_width := 3779, im_height := 5400\<rparr>"
  have r: "pil_resize stub_pillow red_image (3779, 5400) = Inr ?resized"
    by (simp add: stub_pillow_def)
  from resize_for_print_canvas[of red_image 4500 5400 stub_pillow] sz r
  obtain out where o: "resize_for_print stub_pillow red_image 4500 5400 = Inr out"
    "im_width out = 4500" "im_height out = 5400" "im_mode out = ''RGBA''"
    and px: "\<forall>x y. \<not> in_box ((4500 - 3779) div 2, (5400 - 5400) div 2) ?resized x y
                \<longrightarrow> im_px out x y = transparent"
    by (auto simp: d)
  have "\<not> in_box ((4500 - 3779) div 2, (5400 - 5400) div 2) ?resized 0 0"
    and "\<not> in_box ((4500 - 3779) div 2, (5400 - 5400) div 2) ?resized 4499 5399"
    by (simp_all add: in_box_def)
  with px have "im_px out 0 0 = transparent" and "im_px out 4499 5399 = transparent" by blast+
  with o show ?thesis by blast
qed

text \<open>
  C5. Whenever the scaled size is \<open>(new_width, new_height)\<close> and Pillow's \<^verbatim>\<open>resize\<close>
  returns the scaled image, \<^verbatim>\<open>resize_for_print\<close> returns the transparent canvas with that
  image pasted at \<open>x = (width - new_width) div 2\<close>, \<open>y = (height - new_height) div 2\<close> (floor
  division); the padding left of the scaled image, \<open>x\<close>, and the padding right of it,
  \<open>width - new_width - x\<close>, differ by at most one pixel, and so do the paddings above and
  below.
\<close>

theorem resize_for_print_centred:
  assumes "scaled_size (im_width img) (im_height img) width height = Inr (new_width, new_height)"
    and "pil_resize lib img (new_width, new_height) = Inr resized"
    and "0 \<le> width" and "0 \<le> height"
  shows "\<exists>x y canvas.
           image_new ''RGBA'' (width, height) transparent = Inr canvas
         \<and> resize_for_print lib img width height
             = Inr (paste (pil_composite lib) canvas resized (x, y)
                      (if im_mode resized = ''RGBA'' then Some resized else None))
         \<and> x = (width - new_width) div 2 \<and> y = (height - new_height) div 2
         \<and> \<bar>x - (width - new_width - x)\<bar> \<le> 1
         \<and> \<bar>y - (height - new_height - y)\<bar> \<le> 1"
proof -
  have c: "image_new ''RGBA'' (width, height) transparent
           = Inr \<lparr>im_width = width, im_height = height, im_mode = ''RGBA'', im_px = (\<lambda>x y. transparent)\<rparr>"
    using assms(3,4) by (simp add: image_new_def)
  have h: "\<bar>(width - new_width) div 2 - (width - new_width - (width - new_width) div 2)\<bar> \<le> 1"
    by linarith
  have v: "\<bar>(height - new_height) div 2 - (height - new_height - (height - new_height) div 2)\<bar> \<le> 1"
    by linarith
  from resize_for_print_run[OF assms] c h v show ?thesis by blast
qed

theorem resize_for_print_centred_witness:
  "\<exists>canvas. resize_for_print stub_pillow red_image 4500 5400
      = Inr (paste (pil_composite stub_pillow) canvas (red_image\<lparr>im_width := 3779, im_height := 5400\<rparr>)
               (360, 0) (Some (red_image\<lparr>im_width := 3779, im_height := 5400\<rparr>)))
    \<and> \<bar>360 - (4500 - 3779 - 360)\<bar> \<le> (1::int)"
proof -
  have sz: "scaled_size (im_width red_image) (im_height red_image) 4500 5400 = Inr (3779, 5400)"
    unfolding red_image_def by (simp only: image.simps) code_simp
  let ?resized = "red_image\<lparr>im_width := 3779, im_height := 5400\<rparr>"
  have r: "pil_resize stub_pillow red_image (3779, 5400) = Inr ?resized"
    by (simp add: stub_pillow_def)
  have m: "im_mode ?resized = ''RGBA''" by (simp add: red_image_def)
  from resize_for_print_centred[OF sz r] m show ?thesis by auto
qed

lemma resize_for_print_resize_raises:
  assumes "scaled_size (im_width img) (im_height img) width height = Inr (new_width, new_height)"
    and "pil_resize lib img (new_width, new_height) = Inl e"
  shows "resize_for_print lib img width height = Inl e"
  using assms by (simp add: resize_for_print_def)

lemma paste_empty:
  assumes "im_width im = 0 \<or> im_height im = 0"
  shows "im_px (paste composite canvas im pos mask_im) x y = im_px canvas x y"
  using assms by (auto simp: paste_def in_box_def)

text \<open>
  C6, as the code has it. When the scaled width or height is 0, \<^verbatim>\<open>resize_for_print\<close> has
  no guard of its own: it hands the zero size to Pillow's \<^verbatim>\<open>resize\<close> and raises whatever
  that raises. Only when \<^verbatim>\<open>resize\<close> returns an image of that zero size is the paste a no-op
  and the result a fully transparent RGBA canvas of the target dimensions.
\<close>

theorem resize_for_print_degenerate:
  assumes "scaled_size (im_width img) (im_height img) width height = Inr (new_width, new_height)"
    and "new_width = 0 \<or> new_height = 0"
    and "0 \<le> width" and "0 \<le> height"
  shows "(\<forall>e. pil_resize lib img (new_width, new_height) = Inl e
            \<longrightarrow> resize_for_print lib img width height = Inl e)
       \<and> (\<forall>resized. pil_resize lib img (new_width, new_height) = Inr resized
            \<longrightarrow> im_width resized = new_width \<longrightarrow> im_height resized = new_height
            \<longrightarrow> (\<exists>out. resize_for_print lib img width height = Inr out
                   \<and> im_width out = width \<and> im_height out = height \<and> im_mode out = ''RGBA''
                   \<and> (\<forall>x y. im_px out x y = transparent)))"
proof (intro conjI allI impI)
  fix e
  assume "pil_resize lib img (new_width, new_height) = Inl e"
  with assms(1) show "resize_for_print lib img width height = Inl e"
    by (rule resize_for_print_resize_raises)
next
  fix resized
  assume r: "pil_resize lib img (new_width, new_height) = Inr resized"
    and w: "im_width resized = new_width" and h: "im_height resized = new_height"
  from assms(2) w h have z: "im_width resized = 0 \<or> im_height resized = 0" by simp
  from resize_for_print_run[OF assms(1) r assms(3,4)] paste_empty[OF z]
  show "\<exists>out. resize_for_print lib img width height = Inr out
           \<and> im_width out = width \<and> im_height out = height \<and> im_mode out = ''RGBA''
           \<and> (\<forall>x y. im_px out x y = transparent)"
    by (simp add: paste_frame)
qed

theorem resize_for_print_degenerate_witness:
  "\<exists>out. resize_for_print stub_pillow wide_image 4500 5400 = Inr out
     \<and> im_width out = 4500 \<and> im_height out = 5400 \<and> (\<forall>x y. im_px out x y = transparent)"
proof -
  have sz: "scaled_size (im_width wide_image) (im_height wide_image) 4500 5400 = Inr (4500, 0)"
    unfolding wide_image_def by (simp only: image.simps) code_simp
  let ?resized = "wide_image\<lparr>im_width := 4500, im_height := 0\<rparr>"
  have r: "pil_resize stub_pillow wide_image (4500, 0) = Inr ?resized"
    by (simp add: stub_pillow_def)
  from resize_for_print_degenerate[OF sz, of stub_pillow] r show ?thesis
    by auto
qed

text \<open>
  The claim as stated has no error in the degenerate case. The 1000000 by 1 source scales to
  4500 by 0, and with a \<^verbatim>\<open>resize\<close> that refuses such a size the call raises instead of
  returning a transparent canvas.
\<close>

theorem resize_for_print_degenerate_counterexample:
  "scaled_size (im_width wide_image) (im_height wide_image) 4500 5400 = Inr (4500, 0)
   \<and> resize_for_print strict_pillow wide_image 4500 5400
       = Inl (ValueError ''height and width must be > 0'')"
proof -
  have sz: "scaled_size (im_width wide_image) (im_height wide_image) 4500 5400 = Inr (4500, 0)"
    unfolding wide_image_def by (simp only: image.simps) code_simp
  have r: "pil_resize strict_pillow wide_image (4500, 0)
             = Inl (ValueError ''height and width must be > 0'')"
    by (simp add: strict_pillow_def stub_pillow_def)
  from sz resize_for_print_resize_raises[OF sz r] show ?thesis by (rule conjI)
qed

subsection \<open>Claim about \<^verbatim>\<open>process_trend\<close>\<close>

lemma post_process_removal_failed:
  assumes "remove_background env img = Inl e"
  shows "post_process env trend True resize img = post_process env trend False resize img"
  using assms by (simp add: post_process_def)

text \<open>
  C8. In \<^verbatim>\<open>process_trend\<close> with background removal enabled, when the design was generated
  and \<^verbatim>\<open>remove_background\<close> raises an exception on it, the exception is caught and the
  pipeline goes on with the unmodified generated image: the call does exactly what the
  same call with background removal disabled does, so the failure never aborts the item;
  in particular, with resizing enabled, the unmodified image (converted to RGBA if it is
  not) is resized, saved under the item's path, and the path is returned.
\<close>

theorem background_removal_failure_is_caught:
  assumes "create_prompt env trend style = Inr prompt"
    and "snd (generate_design (client_init env) (text_to_image env) prompt 3) = Inr (Some img)"
    and "remove_background env img = Inl e"
  shows "process_trend env trend style True resize = process_trend env trend style False resize
     \<and> (\<forall>rgba out.
          (if im_mode img \<noteq> ''RGBA'' then pil_convert env img ''RGBA'' else Inr img) = Inr rgba
          \<longrightarrow> resize_for_print env rgba TSHIRT_WIDTH TSHIRT_HEIGHT = Inr out
          \<longrightarrow> save_png env out (''output/'' @ slugify trend @ ''_'' @ timestamp env @ ''.png'') = None
          \<longrightarrow> process_trend env trend style True True
                = Inr (Some (''output/'' @ slugify trend @ ''_'' @ timestamp env @ ''.png'', out)))"
proof -
  have same: "post_process env trend True r img = post_process env trend False r img" for r
    using assms(3) by (rule post_process_removal_failed)
  have run: "process_trend env trend style b r
             = (case post_process env trend b r img of Inl e \<Rightarrow> Inl e | Inr saved \<Rightarrow> Inr (Some saved))"
    for b r
    using assms(1,2) by (simp add: process_trend_def)
  have eq: "process_trend env trend style True resize = process_trend env trend style False resize"
    by (simp only: run same)
  have "process_trend env trend style True True
          = Inr (Some (''output/'' @ slugify trend @ ''_'' @ timestamp env @ ''.png'', out))"
    if "(if im_mode img \<noteq> ''RGBA'' then pil_convert env img ''RGBA'' else Inr img) = Inr rgba"
      and "resize_for_print env rgba TSHIRT_WIDTH TSHIRT_HEIGHT = Inr out"
      and "save_png env out (''output/'' @ slugify trend @ ''_'' @ timestamp env @ ''.png'') = None"
    for rgba out
  proof -
    have "post_process env trend False True img
            = Inr (''output/'' @ slugify trend @ ''_'' @ timestamp env @ ''.png'', out)"
      using that by (simp add: post_process_def Let_def)
    then show ?thesis by (simp only: run same) simp
  qed
  with eq show ?thesis by blast
qed

theorem background_removal_failure_is_caught_witness:
  "process_trend stub_services ''Cats'' ''bold'' True True
     = process_trend stub_services ''Cats'' ''bold'' False True
   \<and> map_sum id (map_option fst) (process_trend stub_services ''Cats'' ''bold'' True True)
     = Inr (Some ''output/cats_20240101_120000.png'')"
proof -
  let ?prompt = "''bold with text '' @ [CHR 0x27] @ ''Cats'' @ [CHR 0x27]
                   @ '', high quality, vector art, print ready, centered composition''"
  have p: "create_prompt stub_services ''Cats'' ''bold'' = Inr ?prompt"
    by code_simp
  have g: "snd (generate_design (client_init stub_services) (text_to_image stub_services) ?prompt 3)
             = Inr (Some red_image)"
    by (simp add: generate_design_def stub_services_def services.defs pillow.defs upt_rec)
  have b: "remove_background stub_services red_image = Inl (LibraryError ''rembg failed'')"
    by (simp add: stub_services_def services.defs pillow.defs)
  have c: "(if im_mode red_image \<noteq> ''RGBA'' then pil_convert stub_services red_image ''RGBA''
            else Inr red_image) = Inr red_image"
    by (simp add: red_image_def)
  have sz: "scaled_size (im_width red_image) (im_height red_image) 4500 5400 = Inr (3779, 5400)"
    unfolding red_image_def by (simp only: image.simps) code_simp
  have r: "pil_resize stub_services red_image (3779, 5400)
             = Inr (red_image\<lparr>im_width := 3779, im_height := 5400\<rparr>)"
    by (simp add: stub_services_def stub_pillow_def services.defs pillow.defs)
  from resize_for_print_run[OF sz r]
  obtain out where o: "resize_for_print stub_services red_image TSHIRT_WIDTH TSHIRT_HEIGHT = Inr out"
    by (simp add: TSHIRT_WIDTH_def TSHIRT_HEIGHT_def)
  have s: "slugify ''Cats'' = ''cats''" by code_simp
  have t: "timestamp stub_services = ''20240101_120000''"
    by (simp add: stub_services_def services.defs pillow.defs)
  have w: "save_png stub_services out (''output/'' @ slugify ''Cats'' @ ''_'' @ timestamp stub_services @ ''.png'') = None"
    by (simp add: stub_services_def services.defs pillow.defs)
  note res = background_removal_failure_is_caught[OF p g b, of True]
  from res have e1: "process_trend stub_services ''Cats'' ''bold'' True True
          = process_trend stub_services ''Cats'' ''bold'' False True"
    by blast
  from res c o w have e2: "process_trend stub_services ''Cats'' ''bold'' True True
          = Inr (Some (''output/'' @ slugify ''Cats'' @ ''_'' @ timestamp stub_services @ ''.png'', out))"
    by blast
  have e3: "map_sum id (map_option fst) (process_trend stub_services ''Cats'' ''bold'' True True)
          = Inr (Some ''output/cats_20240101_120000.png'')"
    unfolding e2 by (simp add: s t)
  from e1 e3 show ?thesis by (rule conjI)
qed

subsection \<open>Claim about \<^verbatim>\<open>create_product\<close>\<close>

text \<open>
  C10. Whenever \<^verbatim>\<open>create_product\<close> builds its payload, the \<^verbatim>\<open>sync_variants\<close> list has at most
  8 entries, whatever the variant table, the product type and the file are; with the
  class's own table, whose \<^verbatim>\<open>unisex_tshirt\<close> entry defines 12 variants, it has exactly 8.
\<close>

theorem create_product_at_most_8_variants:
  "(create_product_payload upload_file str_price vtable design_file title product_type price = Inr payload
      \<longrightarrow> length (sync_variants payload) \<le> 8)
   \<and> (create_product_payload upload_file str_price VARIANTS design_file title product_type price = Inr payload
      \<longrightarrow> length (sync_variants payload) = 8)"
  by (auto simp: create_product_payload_def build_sync_variants_def Let_def dict_index_def
        dict_get_def VARIANTS_def
      split: sum.splits if_splits option.splits)

theorem create_product_at_most_8_variants_witness:
  "create_product_payload
      (\<lambda>f. Inr \<lparr>fi_preview_url = None, fi_url = Some ''https://files/1.png'', fi_id = Some (7::nat)\<rparr>)
      (\<lambda>p::nat. ''24.99'') VARIANTS ''a.png'' ''Cats'' ''hoodie'' 0
     = Inr \<lparr>sync_product_name = ''Cats'', sync_product_thumbnail = ''https://files/1.png'',
            sync_variants = build_sync_variants (dict_get VARIANTS ''hoodie'' (dict_get VARIANTS ''unisex_tshirt'' []))
                              (Some 7) ''24.99''\<rparr>
   \<and> length (build_sync_variants (dict_get VARIANTS ''hoodie'' (dict_get VARIANTS ''unisex_tshirt'' []))
                (Some (7::nat)) ''24.99'') = 8"
proof -
  let ?up = "\<lambda>f::string. (Inr \<lparr>fi_preview_url = None, fi_url = Some ''https://files/1.png'',
                                  fi_id = Some (7::nat)\<rparr> :: py_exception + nat file_info)"
  let ?p = "\<lparr>sync_product_name = ''Cats'', sync_product_thumbnail = ''https://files/1.png'',
            sync_variants = build_sync_variants (dict_get VARIANTS ''hoodie'' (dict_get VARIANTS ''unisex_tshirt'' []))
                              (Some (7::nat)) ''24.99''\<rparr>"
  have run: "create_product_payload ?up (\<lambda>p::nat. ''24.99'') VARIANTS ''a.png'' ''Cats'' ''hoodie'' 0 = Inr ?p"
    by (simp add: create_product_payload_def py_or_def truthy_def dict_index_def dict_get_def
          VARIANTS_def Let_def)
  from create_product_at_most_8_variants
         [of ?up "\<lambda>p::nat. ''24.99''" VARIANTS "''a.png''" "''Cats''" "''hoodie''" 0 ?p] run
  show ?thesis by simp
qed
subsection \<open>Claim about \<^verbatim>\<open>slugify\<close>\<close>

text \<open>
  C9. \<^verbatim>\<open>slugify\<close> is idempotent: for every string \<open>s\<close> (over the code points below 256),
  \<open>slugify (slugify s) = slugify s\<close>.
\<close>

theorem slugify_idempotent: "slugify (slugify s) = slugify s"
proof -
  let ?out = "slugify s"
  have chars: "slug_chars ?out" by (rule slugify_chars)
  have nd: "no_double ?out"
    using sub_runs_no_double[of False "filter kept (py_lower s)"]
    by (simp add: slugify_def Let_def py_strip_no_double)
  have ends: "?out = [] \<or> (hd ?out \<noteq> CHR ''_'' \<and> last ?out \<noteq> CHR ''_'')"
    unfolding slugify_def Let_def by (rule py_strip_ends)
  have 1: "py_lower ?out = ?out"
    using chars by (simp add: py_lower_def slug_chars_def map_idI)
  have 2: "filter kept ?out = ?out"
    using chars by (simp add: slug_chars_def)
  have 3: "sub_runs False ?out = ?out"
    using chars nd by (intro sub_runs_fixed) (auto simp: slug_chars_def)
  have 4: "py_strip (CHR ''_'') ?out = ?out"
    using ends by (rule py_strip_fixed)
  have "slugify ?out = py_strip (CHR ''_'') (sub_runs False (filter kept (py_lower ?out)))"
    by (simp add: slugify_def Let_def)
  then show ?thesis by (simp only: 1 2 3 4)
qed


end
